theory Spec2Isabelle
  imports Complex_Main "HOL-Library.Multiset" "HOL-Library.Signed_Division" "HOL-Library.Sublist"
    "HOL-Library.Word"
begin

section \<open>Data model\<close>

text \<open>
  The programs are SPMD: every one of the \<open>numProcs\<close> processes runs the same \<open>main\<close>
  with its own \<open>rank\<close>. A variable of the program is modelled as the list of its values
  at the ranks \<open>0 ..< numProcs\<close>; the code between two collective calls acts on each
  entry separately, and a collective call transforms the whole list.

  A C++ \<open>int\<close> that is only copied, compared, divided or counted with (\<open>N\<close>, \<open>rank\<close>,
  \<open>elementsPerProc\<close>) is an \<open>int\<close> of HOL, with the truncating division of C++ (\<open>sdiv\<close>,
  \<open>smod\<close>): these operations do not leave the range of the C++ \<open>int\<close>. An \<open>int\<close> that is
  summed by an \<open>MPI_INT\<close> reduction, or compared bit for bit after a broadcast, is a
  32-bit word, read as a signed number by \<open>sint\<close>. A \<open>double\<close> is a value of a type \<open>'d\<close>;
  its arithmetic (\<open>+\<close>, \<open>/\<close>, the conversion from \<open>int\<close>, the literal \<open>0.0\<close>) is passed to
  every function that uses it, so that nothing is assumed of floating-point addition
  that the hardware does not give.
\<close>

type_synonym c_int = "32 word"

datatype error =
  LengthError    \<comment> \<open>\<open>std::vector<double> v(n)\<close> with a negative \<open>n\<close> throws \<open>std::length_error\<close>\<close>
  | DivideByZero \<comment> \<open>integer division by zero traps\<close>

datatype collective = Barrier | Bcast | Reduce

datatype 'a outcome =
  Aborted int   \<comment> \<open>\<open>MPI_Abort(MPI_COMM_WORLD, code)\<close>: the whole group is terminated\<close>
  | Terminated error \<comment> \<open>an exception that nothing catches\<close>
  | Finished 'a \<comment> \<open>\<open>MPI_Finalize\<close> and \<open>return\<close>\<close>

section \<open>The random data of a participant\<close>

text \<open>
  \<open>std::mt19937\<close> and \<open>std::uniform_real_distribution<double>\<close> belong to the C++
  library. The engine's constructor is the parameter \<open>mk\<close> (from the seed to the
  engine's state). The distribution is the parameter \<open>unif\<close>: \<open>unif a b\<close> is the object
  that \<open>std::uniform_real_distribution<double> distribucion(a, b)\<close> constructs, and one
  call \<open>distribucion(generador)\<close> takes the engine's state to the value drawn and the
  next state. \<open>draw\<close> stands for a distribution object that is already constructed.

  The loop \<open>for (int i = 0; i < N; ++i) valores[i] = distribucion(generador);\<close>
\<close>

function fill_valores :: "('g \<Rightarrow> 'd \<times> 'g) \<Rightarrow> nat \<Rightarrow> nat \<Rightarrow> 'g \<Rightarrow> 'd list \<Rightarrow> 'd list" where
  "fill_valores draw i n generador valores =
     (if i < n
      then (case draw generador of
              (v, generador') \<Rightarrow> fill_valores draw (Suc i) n generador' (valores[i := v]))
      else valores)"
  by pat_completeness auto
termination
  by (relation "measure (\<lambda>(draw, i, n, generador, valores). n - i)") auto

declare fill_valores.simps [simp del]

text \<open>
  \<open>generarValoresAleatorios(N, rank)\<close> of main.cpp. \<open>zero\<close> is the \<open>double\<close> \<open>0.0\<close> of the
  elements of the new vector. The bounds of \<open>distribucion(0.0, 100.0)\<close> are given as the
  real numbers 0 and 100 that the two \<open>double\<close> literals denote.
\<close>

definition generarValoresAleatorios ::
  "(int \<Rightarrow> 'g) \<Rightarrow> (real \<Rightarrow> real \<Rightarrow> 'g \<Rightarrow> 'd \<times> 'g) \<Rightarrow> 'd \<Rightarrow> int \<Rightarrow> int \<Rightarrow> error + 'd list" where
  "generarValoresAleatorios mk unif zero N rank =
     (if N < 0 then Inl LengthError
      else
        let valores = replicate (nat N) zero;
            generador = mk (rank + 42);
            distribucion = unif 0 100
        in Inr (fill_valores distribucion 0 (nat N) generador valores))"

text \<open>
  Modelled from the spec: what \<open>std::uniform_real_distribution<double>\<close> of the C++
  library, which the repository does not contain, returns. The spec: "draws \<open>count\<close>
  values uniformly from \<open>[0, 100)\<close>", for the bounds \<open>(0.0, 100.0)\<close> that the code passes;
  the library promises the same of any bounds: constructed with \<open>a < b\<close>, the distribution
  returns a value \<open>x\<close> with \<open>a \<le> x < b\<close>. Here a \<open>double\<close> is the real number it denotes.
\<close>

definition uniform_real_contract :: "(real \<Rightarrow> real \<Rightarrow> 'g \<Rightarrow> real \<times> 'g) \<Rightarrow> bool" where
  "uniform_real_contract unif \<longleftrightarrow>
     (\<forall>a b g. a < b \<longrightarrow> a \<le> fst (unif a b g) \<and> fst (unif a b g) < b)"

text \<open>The first \<open>n\<close> values of the stream that \<open>draw\<close> produces from a state.\<close>

fun draws :: "('g \<Rightarrow> 'd \<times> 'g) \<Rightarrow> nat \<Rightarrow> 'g \<Rightarrow> 'd list" where
  "draws draw 0 g = []"
| "draws draw (Suc n) g = fst (draw g) # draws draw n (snd (draw g))"

text \<open>\<open>calcularSumaParcial\<close> of main.cpp: \<open>suma = 0.0; for (valor : valores) suma += valor;\<close>\<close>

definition calcularSumaParcial :: "('d \<Rightarrow> 'd \<Rightarrow> 'd) \<Rightarrow> 'd \<Rightarrow> 'd list \<Rightarrow> 'd" where
  "calcularSumaParcial fadd zero valores = foldl fadd zero valores"

section \<open>Strong scaling: the elements of a participant\<close>

text \<open>
  analysis.cpp, \<open>strongScalingAnalysis\<close>:
  \<open>int elementsPerProc = N / numProcs; if (N % numProcs != 0) elementsPerProc++;\<close>
\<close>

definition elementsPerProc :: "int \<Rightarrow> int \<Rightarrow> error + int" where
  "elementsPerProc N numProcs =
     (if numProcs = 0 then Inl DivideByZero
      else
        let e = N sdiv numProcs
        in Inr (if N smod numProcs \<noteq> 0 then e + 1 else e))"

section \<open>The collective operations\<close>

text \<open>
  The MPI library (\<open>MPI_Reduce\<close>, \<open>MPI_Bcast\<close>, \<open>MPI_Barrier\<close>, \<open>MPI_Abort\<close>) is not part
  of the repository; the programs only call it. Its operations are modelled by the
  contract the spec states for them.
\<close>

text \<open>
  Modelled from the spec: the order in which the library's reduction combines the
  contributions, which the repository does not contain. The spec: "the reduction
  combines values in an implementation-defined tree or sequential order", and "every
  participant must call it exactly once per round". A \<open>plan\<close> is such an order: a binary
  tree whose leaves name ranks; it is valid for a group when every rank of the group is
  a leaf exactly once. \<open>combine f p sendbuf\<close> combines the contributions with \<open>f\<close> along
  the plan \<open>p\<close>.
\<close>

datatype plan = Leaf nat | Node plan plan

fun leaves :: "plan \<Rightarrow> nat list" where
  "leaves (Leaf r) = [r]"
| "leaves (Node a b) = leaves a @ leaves b"

definition valid_plan :: "plan \<Rightarrow> nat \<Rightarrow> bool" where
  "valid_plan p numProcs \<longleftrightarrow> sort (leaves p) = [0..<numProcs]"

fun combine :: "('a \<Rightarrow> 'a \<Rightarrow> 'a) \<Rightarrow> plan \<Rightarrow> 'a list \<Rightarrow> 'a" where
  "combine f (Leaf r) sendbuf = sendbuf ! r"
| "combine f (Node a b) sendbuf = f (combine f a sendbuf) (combine f b sendbuf)"

text \<open>
  Modelled from the spec: \<open>MPI_Reduce(sendbuf, recvbuf, 1, type, MPI_SUM, root, comm)\<close>
  of the MPI library, which the repository does not contain. The spec: "collective
  operation; [...] blocks until all participants have contributed; result defined only
  at the designated coordinator (rank 0)". The root's receive buffer gets the
  combination of all send buffers; the receive buffer of every other rank is left as it
  was.
\<close>

definition MPI_Reduce :: "('a \<Rightarrow> 'a \<Rightarrow> 'a) \<Rightarrow> plan \<Rightarrow> 'a list \<Rightarrow> 'a list \<Rightarrow> nat \<Rightarrow> 'a list" where
  "MPI_Reduce f p sendbuf recvbuf root_rank = recvbuf[root_rank := combine f p sendbuf]"

text \<open>
  Modelled from the spec: \<open>MPI_Bcast(buffer, 1, type, root, comm)\<close> of the MPI library,
  which the repository does not contain. The spec: "collective operation; coordinator
  supplies the value, all others receive it; blocks until every participant has
  received it". Every rank's buffer becomes the root's buffer.
\<close>

definition MPI_Bcast :: "'a list \<Rightarrow> nat \<Rightarrow> 'a list" where
  "MPI_Bcast buffer root_rank = map (\<lambda>_. buffer ! root_rank) buffer"

text \<open>The plan that combines rank by rank, \<open>((0 + 1) + 2) + \<dots> + n\<close>.\<close>

fun seq_plan :: "nat \<Rightarrow> plan" where
  "seq_plan 0 = Leaf 0"
| "seq_plan (Suc n) = Node (seq_plan n) (Leaf (Suc n))"

section \<open>main.cpp\<close>

record 'd main_result =
  N_all :: "int list"
  valores_all :: "'d list list"
  sumaParcial_all :: "'d list"
  sumaTotal_all :: "'d list"
  promedio_root :: "'d"
  promedioFinal_all :: "'d list"

text \<open>The values of all ranks, or the first exception.\<close>

fun collect :: "(error + 'a) list \<Rightarrow> error + 'a list" where
  "collect [] = Inr []"
| "collect (Inl e # xs) = Inl e"
| "collect (Inr x # xs) = (case collect xs of Inl e \<Rightarrow> Inl e | Inr ys \<Rightarrow> Inr (x # ys))"

text \<open>
  \<open>main\<close> of main.cpp, for a group of \<open>numProcs\<close> processes and the integer \<open>input\<close>
  that rank 0 reads from standard input. The result is the sequence of collective
  operations the group has executed, in program order, and how the run ended. A
  collective operation is executed once every rank of the group, rank 0 included, has
  called it, so the sequence is one for the whole group (\<open>tr1\<close>, \<open>tr2\<close>, \<open>\<dots>\<close> are its
  successive values). When rank 0 calls \<open>MPI_Abort\<close> the run ends there; the other ranks
  have by then passed the first barrier and go on to the first \<open>MPI_Bcast\<close>, which rank 0
  never joins (\<open>main_calls\<close> and \<open>run\<close> below follow the calls rank by rank). The loops \<open>for (int i = 0; i < numProcs; ++i) { \<dots> MPI_Barrier(\<dots>); }\<close>
  only print, and execute \<open>numProcs\<close> barriers. The product \<open>N * numProcs\<close> is taken in
  \<open>int\<close>; C++ leaves it undefined past \<open>2^31 - 1\<close>.
\<close>

definition main_program ::
  "(int \<Rightarrow> 'g) \<Rightarrow> (real \<Rightarrow> real \<Rightarrow> 'g \<Rightarrow> 'd \<times> 'g) \<Rightarrow> ('d \<Rightarrow> 'd \<Rightarrow> 'd) \<Rightarrow> ('d \<Rightarrow> 'd \<Rightarrow> 'd) \<Rightarrow>
   (int \<Rightarrow> 'd) \<Rightarrow> 'd \<Rightarrow> plan \<Rightarrow> nat \<Rightarrow> int \<Rightarrow> collective list \<times> 'd main_result outcome" where
  "main_program mk unif fadd fdiv i2d zero p numProcs input =
     (let ranks = [0..<numProcs];
          tr1 = [Barrier];
          N0 = map (\<lambda>rank. if rank = 0 then input else 0) ranks
      in if input \<le> 0 then (tr1, Aborted 1)
         else
           let N = MPI_Bcast N0 0;
               tr2 = tr1 @ [Bcast]
           in case collect (map (\<lambda>rank. generarValoresAleatorios mk unif zero (N ! rank)
                                           (int rank)) ranks) of
                Inl e \<Rightarrow> (tr2, Terminated e)
              | Inr valores \<Rightarrow>
                  let sumaParcial = map (calcularSumaParcial fadd zero) valores;
                      tr3 = tr2 @ replicate numProcs Barrier @ [Barrier];
                      sumaTotal = MPI_Reduce fadd p sumaParcial (replicate numProcs zero) 0;
                      tr4 = tr3 @ [Reduce];
                      promedio = fdiv (sumaTotal ! 0) (i2d (N ! 0 * int numProcs));
                      promedioFinal0 = map (\<lambda>rank. if rank = 0 then promedio else zero) ranks;
                      promedioFinal = MPI_Bcast promedioFinal0 0;
                      tr5 = tr4 @ [Bcast] @ replicate numProcs Barrier @ [Barrier]
                  in (tr5, Finished \<lparr>N_all = N, valores_all = valores,
                        sumaParcial_all = sumaParcial, sumaTotal_all = sumaTotal,
                        promedio_root = promedio, promedioFinal_all = promedioFinal\<rparr>))"

text \<open>
  The MPI calls that the process of one rank makes in \<open>main\<close> of main.cpp, in program
  order, as long as nothing stops it. Rank 0 reads \<open>input\<close> between the first barrier and
  the first broadcast and calls \<open>MPI_Abort(MPI_COMM_WORLD, 1)\<close> when it is not positive;
  every other rank skips the block \<open>if (rank == 0)\<close> and goes from the barrier straight
  to \<open>MPI_Bcast\<close>.
\<close>

datatype mpi_call = Collective collective | MPI_Abort int

definition main_calls :: "nat \<Rightarrow> int \<Rightarrow> nat \<Rightarrow> mpi_call list" where
  "main_calls numProcs input rank =
     [Collective Barrier] @
     (if rank = 0 \<and> input \<le> 0 then [MPI_Abort 1]
      else [Collective Bcast] @ replicate numProcs (Collective Barrier) @
           [Collective Barrier, Collective Reduce, Collective Bcast] @
           replicate numProcs (Collective Barrier) @ [Collective Barrier])"

fun is_abort :: "mpi_call \<Rightarrow> bool" where
  "is_abort (MPI_Abort code) = True"
| "is_abort (Collective c) = False"

text \<open>
  Modelled from the spec: how the calls of the processes interleave, which is the doing
  of the MPI library and of the scheduler, not of the repository. The spec: a barrier
  "blocks every participant until all have called it", a reduction "blocks until all
  participants have contributed", a broadcast "blocks until every participant has
  received it", and the abort is "a whole-group termination signal". The processes run
  at their own pace. \<open>invoked\<close> holds, for every rank, the number of calls it has made so
  far. A rank makes its next call once its previous call has returned, that is once
  every rank has made that previous call too, and no rank makes a call after the abort.
  \<open>invoke calls s rank\<close> is the state after \<open>rank\<close> has made its next call, if it can make
  one; \<open>run\<close> lets the ranks of a schedule make one call each, in turn.
\<close>

record group_state =
  invoked :: "nat list"
  aborted :: bool

definition initial :: "nat \<Rightarrow> group_state" where
  "initial numProcs = \<lparr>invoked = replicate numProcs 0, aborted = False\<rparr>"

definition invoke :: "(nat \<Rightarrow> mpi_call list) \<Rightarrow> group_state \<Rightarrow> nat \<Rightarrow> group_state option" where
  "invoke calls s rank =
     (if \<not> aborted s \<and> rank < length (invoked s) \<and> invoked s ! rank < length (calls rank) \<and>
         (\<forall>n \<in> set (invoked s). invoked s ! rank \<le> n)
      then Some \<lparr>invoked = (invoked s)[rank := Suc (invoked s ! rank)],
                 aborted = is_abort (calls rank ! (invoked s ! rank))\<rparr>
      else None)"

fun run :: "(nat \<Rightarrow> mpi_call list) \<Rightarrow> group_state \<Rightarrow> nat list \<Rightarrow> group_state option" where
  "run calls s [] = Some s"
| "run calls s (rank # schedule) =
     (case invoke calls s rank of None \<Rightarrow> None | Some s' \<Rightarrow> run calls s' schedule)"

text \<open>The calls that a rank has made in a state.\<close>

definition calls_invoked :: "(nat \<Rightarrow> mpi_call list) \<Rightarrow> group_state \<Rightarrow> nat \<Rightarrow> mpi_call list" where
  "calls_invoked calls s rank = take (invoked s ! rank) (calls rank)"

text \<open>
  What holds of every state of a run of \<open>main\<close> whose input is not positive: no rank has
  made more than two calls, the group is aborted exactly when rank 0 has made its second
  call, and then every rank has made its first.
\<close>

definition abort_invariant :: "nat \<Rightarrow> group_state \<Rightarrow> bool" where
  "abort_invariant numProcs s \<longleftrightarrow>
     length (invoked s) = numProcs \<and> (\<forall>n \<in> set (invoked s). n \<le> 2) \<and>
     (aborted s \<longleftrightarrow> invoked s ! 0 = 2) \<and> (aborted s \<longrightarrow> (\<forall>n \<in> set (invoked s). 1 \<le> n))"

section \<open>analysis.cpp\<close>

record 'd scaling_result =
  data_all :: "'d list list"
  localSum_all :: "'d list"
  globalSum_all :: "'d list"
  avg_root :: "'d"

text \<open>
  \<open>strongScalingAnalysis(N, maxProcs, rank, numProcs)\<close>; \<open>maxProcs\<close> is not used by the
  function. \<open>avg_root\<close> is the \<open>avg\<close> that rank 0 prints.
\<close>

definition strongScalingAnalysis ::
  "(int \<Rightarrow> 'g) \<Rightarrow> ('g \<Rightarrow> 'd \<times> 'g) \<Rightarrow> ('d \<Rightarrow> 'd \<Rightarrow> 'd) \<Rightarrow> ('d \<Rightarrow> 'd \<Rightarrow> 'd) \<Rightarrow> (int \<Rightarrow> 'd) \<Rightarrow> 'd \<Rightarrow>
   plan \<Rightarrow> int \<Rightarrow> nat \<Rightarrow> error + 'd scaling_result" where
  "strongScalingAnalysis mk draw fadd fdiv i2d zero p N numProcs =
     (case elementsPerProc N (int numProcs) of
        Inl e \<Rightarrow> Inl e
      | Inr elems \<Rightarrow>
          if elems < 0 then Inl LengthError
          else
            let ranks = [0..<numProcs];
                data = map (\<lambda>rank. fill_valores draw 0 (nat elems) (mk (int rank + 42))
                                    (replicate (nat elems) zero)) ranks;
                localSum = map (foldl fadd zero) data;
                globalSum = MPI_Reduce fadd p localSum (replicate numProcs zero) 0;
                avg = fdiv (globalSum ! 0) (i2d N)
            in Inr \<lparr>data_all = data, localSum_all = localSum, globalSum_all = globalSum,
                     avg_root = avg\<rparr>)"

text \<open>
  \<open>robustnessTest\<close>, test 2: the loop \<open>for (int iter = 0; iter < 10; ++iter)\<close> over the
  fixed \<open>data\<close>. \<open>localSum\<close> and \<open>globalSum\<close> are declared inside the body. \<open>seen\<close> records
  the \<open>globalSum\<close> of every rank at the end of each iteration. Every iteration calls
  \<open>MPI_Reduce\<close> with the same communicator, count, datatype and operation, and the
  library combines in the order \<open>p\<close> it has for them.
\<close>

function test2_loop ::
  "('d \<Rightarrow> 'd \<Rightarrow> 'd) \<Rightarrow> 'd \<Rightarrow> plan \<Rightarrow> nat \<Rightarrow> 'd list list \<Rightarrow> nat \<Rightarrow> 'd list list \<Rightarrow> 'd list list" where
  "test2_loop fadd zero p numProcs data iter seen =
     (if iter < 10
      then
        let localSum = map (foldl fadd zero) data;
            globalSum0 = replicate numProcs zero;
            globalSum1 = MPI_Reduce fadd p localSum globalSum0 0;
            globalSum2 = MPI_Bcast globalSum1 0
        in test2_loop fadd zero p numProcs data (Suc iter) (seen @ [globalSum2])
      else seen)"
  by pat_completeness auto
termination
  by (relation "measure (\<lambda>(fadd, zero, p, numProcs, data, iter, seen). 10 - iter)") auto

declare test2_loop.simps [simp del]

definition robustnessTest_2 ::
  "(int \<Rightarrow> 'g) \<Rightarrow> ('g \<Rightarrow> 'd \<times> 'g) \<Rightarrow> ('d \<Rightarrow> 'd \<Rightarrow> 'd) \<Rightarrow> 'd \<Rightarrow> plan \<Rightarrow> nat \<Rightarrow> 'd list list" where
  "robustnessTest_2 mk draw fadd zero p numProcs =
     (let data = map (\<lambda>rank. fill_valores draw 0 1000 (mk (int rank + 42)) (replicate 1000 zero))
                     [0..<numProcs]
      in test2_loop fadd zero p numProcs data 0 [])"

text \<open>
  \<open>robustnessTest\<close>, test 3: \<open>int localValue = rank + 1\<close>, reduced with \<open>MPI_INT\<close> and
  \<open>MPI_SUM\<close>, and compared at rank 0 with \<open>(numProcs * (numProcs + 1)) / 2\<close>. The result is
  the \<open>globalSum\<close> of every rank and whether rank 0 reports success.
\<close>

definition robustnessTest_3 :: "plan \<Rightarrow> nat \<Rightarrow> c_int list \<times> bool" where
  "robustnessTest_3 p numProcs =
     (let localValue = map (\<lambda>rank. of_nat rank + 1) [0..<numProcs];
          globalSum = MPI_Reduce (+) p localValue (replicate numProcs 0) 0;
          expectedSum = word_of_int (sint (of_nat numProcs * (of_nat numProcs + 1) :: c_int) sdiv 2)
      in (globalSum, globalSum ! 0 = expectedSum))"

text \<open>
  \<open>communicationVsComputationAnalysis\<close>, the percentages rank 0 prints from the two
  measured times. Here a \<open>double\<close> is the real number it denotes, and \<open>fadd\<close>, \<open>fdiv\<close>,
  \<open>fmul\<close> are the rounded operations of the hardware.
\<close>

definition comm_comp_ratios ::
  "(real \<Rightarrow> real \<Rightarrow> real) \<Rightarrow> (real \<Rightarrow> real \<Rightarrow> real) \<Rightarrow> (real \<Rightarrow> real \<Rightarrow> real) \<Rightarrow> real \<Rightarrow> real \<Rightarrow> real \<times> real" where
  "comm_comp_ratios fadd fdiv fmul compTime commTime =
     (let totalTime = fadd compTime commTime;
          compRatio = fmul (fdiv compTime totalTime) 100;
          commRatio = fmul (fdiv commTime totalTime) 100
      in (compRatio, commRatio))"

text \<open>
  \<open>rounds_to u exact result\<close>: \<open>result\<close> is \<open>exact\<close> up to a relative error of at most \<open>u\<close>.
  A correctly rounded operation on \<open>double\<close>s that neither overflows nor underflows
  rounds to its exact result with \<open>u = 2\<^sup>-\<^sup>5\<^sup>3\<close>.
\<close>

definition rounds_to :: "real \<Rightarrow> real \<Rightarrow> real \<Rightarrow> bool" where
  "rounds_to u exact result \<longleftrightarrow> \<bar>result - exact\<bar> \<le> u * \<bar>exact\<bar>"

section \<open>test.cpp\<close>

text \<open>\<open>testBroadcast\<close>: the \<open>valorRecibido\<close> and the \<open>resultado\<close> of every rank.\<close>

definition testBroadcast :: "nat \<Rightarrow> (c_int \<times> bool) list" where
  "testBroadcast numProcs =
     (let valorOriginal = 42;
          valorRecibido0 = map (\<lambda>rank. if rank = 0 then valorOriginal else 0) [0..<numProcs];
          valorRecibido = MPI_Bcast valorRecibido0 0
      in map (\<lambda>v. (v, v = valorOriginal)) valorRecibido)"

text \<open>
  \<open>main\<close> of test.cpp from the line \<open>bool todasLasPruebasPasan = true\<close> on. \<open>pruebas\<close>
  holds, for every rank, the results of the five tests it ran, in order (most of them
  compare \<open>double\<close>s and are taken as given); \<open>todasLasPruebasPasan &= \<dots>\<close> accumulates
  them. \<open>resultadoTotal\<close> starts as 0 at every rank. The result is the exit code of every
  rank, \<open>(resultadoTotal == numProcs) ? 0 : 1\<close>.
\<close>

definition test_main :: "bool list list \<Rightarrow> plan \<Rightarrow> nat \<Rightarrow> int list" where
  "test_main pruebas p numProcs =
     (let todasLasPruebasPasan = map (foldl (\<and>) True) pruebas;
          resultadoGlobal = map (\<lambda>b. if b then 1 else 0) todasLasPruebasPasan;
          resultadoTotal = MPI_Reduce (+) p resultadoGlobal (replicate numProcs (0 :: c_int)) 0
      in map (\<lambda>total. if total = of_nat numProcs then 0 else 1) resultadoTotal)"

section \<open>Properties\<close>

lemma fill_valores_length:
  "length (fill_valores draw i n g valores) = length valores"
proof (induction draw i n g valores rule: fill_valores.induct)
  case (1 draw i n g valores)
  show ?case
  proof (cases "i < n")
    case True
    obtain v g' where d: "draw g = (v, g')" by (cases "draw g")
    from True d "1.IH" [OF True d [symmetric]] show ?thesis
      by (simp add: fill_valores.simps [of draw i n g valores])
  next
    case False
    then show ?thesis by (simp add: fill_valores.simps [of draw i n g valores])
  qed
qed

lemma fill_valores_draws:
  "i \<le> n \<Longrightarrow> length valores = n \<Longrightarrow>
   fill_valores draw i n g valores = take i valores @ draws draw (n - i) g"
proof (induction draw i n g valores rule: fill_valores.induct)
  case (1 draw i n g valores)
  show ?case
  proof (cases "i < n")
    case True
    obtain v g' where d: "draw g = (v, g')" by (cases "draw g")
    from True obtain k where k: "n - i = Suc k" by (cases "n - i") auto
    then have k': "n - Suc i = k" by simp
    from True "1.prems" have "fill_valores draw (Suc i) n g' (valores[i := v]) =
        take (Suc i) (valores[i := v]) @ draws draw (n - Suc i) g'"
      using "1.IH" [OF True d [symmetric]] by simp
    also have "take (Suc i) (valores[i := v]) = take i valores @ [v]"
      using True "1.prems" by (simp add: take_Suc_conv_app_nth)
    finally show ?thesis
      using True d k k' by (simp add: fill_valores.simps [of draw i n g valores])
  next
    case False
    with "1.prems" have "i = n" by simp
    with "1.prems" show ?thesis
      by (subst fill_valores.simps) simp
  qed
qed

lemma generar_draws:
  "0 \<le> N \<Longrightarrow>
   generarValoresAleatorios mk unif zero N rank =
     Inr (draws (unif 0 100) (nat N) (mk (rank + 42)))"
  by (simp add: generarValoresAleatorios_def fill_valores_draws)

lemma sdiv_pos: "0 \<le> a \<Longrightarrow> 0 < b \<Longrightarrow> (a::int) sdiv b = a div b"
  by (simp add: signed_divide_int_def sgn_if)

lemma smod_pos: "0 \<le> a \<Longrightarrow> 0 < b \<Longrightarrow> (a::int) smod b = a mod b"
  by (simp add: signed_modulo_int_def sgn_if)

lemma ceiling_div_int:
  assumes "0 < (b::int)"
  shows "\<lceil>real_of_int a / real_of_int b\<rceil> = (if a mod b = 0 then a div b else a div b + 1)"
proof -
  have "\<lceil>real_of_int a / real_of_int b\<rceil> = - ((- a) div b)"
    by (rule ceiling_divide_eq_div)
  also have "\<dots> = (if a mod b = 0 then a div b else a div b + 1)"
    using assms by (auto simp: zdiv_zminus1_eq_if)
  finally show ?thesis .
qed

lemma elementsPerProc_ceiling:
  assumes "1 \<le> N" "1 \<le> P"
  shows "elementsPerProc N P = Inr \<lceil>real_of_int N / real_of_int P\<rceil>"
  using assms by (simp add: elementsPerProc_def Let_def sdiv_pos smod_pos ceiling_div_int)

lemma strongScalingAnalysis_Inr:
  assumes "elementsPerProc N (int numProcs) = Inr elems" "0 \<le> elems"
  shows "strongScalingAnalysis mk draw fadd fdiv i2d zero p N numProcs =
    (let data = map (\<lambda>rank. draws draw (nat elems) (mk (int rank + 42))) [0..<numProcs];
         localSum = map (foldl fadd zero) data;
         globalSum = MPI_Reduce fadd p localSum (replicate numProcs zero) 0
     in Inr \<lparr>data_all = data, localSum_all = localSum, globalSum_all = globalSum,
              avg_root = fdiv (globalSum ! 0) (i2d N)\<rparr>)"
  using assms by (simp add: strongScalingAnalysis_def Let_def fill_valores_draws)

lemma draws_length [simp]: "length (draws draw n g) = n"
  by (induction n arbitrary: g) simp_all

lemma MPI_Bcast_length [simp]: "length (MPI_Bcast buffer r) = length buffer"
  by (simp add: MPI_Bcast_def)

lemma MPI_Bcast_nth: "i < length buffer \<Longrightarrow> MPI_Bcast buffer r ! i = buffer ! r"
  by (simp add: MPI_Bcast_def)

lemma MPI_Reduce_length [simp]: "length (MPI_Reduce f p s r k) = length r"
  by (simp add: MPI_Reduce_def)

lemma MPI_Reduce_root: "k < length r \<Longrightarrow> MPI_Reduce f p s r k ! k = combine f p s"
  by (simp add: MPI_Reduce_def)

lemma MPI_Reduce_other: "i \<noteq> k \<Longrightarrow> MPI_Reduce f p s r k ! i = r ! i"
  by (simp add: MPI_Reduce_def)

lemma valid_plan_mset: "valid_plan p n \<Longrightarrow> mset (leaves p) = mset [0..<n]"
  unfolding valid_plan_def by (metis mset_sort)

lemma combine_sum_leaves:
  "combine (+) p xs = sum_list (map ((!) xs) (leaves p))"
  by (induction p) simp_all

lemma combine_plus_sum_list:
  fixes xs :: "'a::comm_monoid_add list"
  assumes "valid_plan p n" "length xs = n"
  shows "combine (+) p xs = sum_list xs"
proof -
  have "sum_list (map ((!) xs) (leaves p)) = sum_mset (image_mset ((!) xs) (mset (leaves p)))"
    by (metis mset_map sum_mset_sum_list)
  also have "\<dots> = sum_mset (image_mset ((!) xs) (mset [0..<n]))"
    using assms(1) by (simp add: valid_plan_mset)
  also have "\<dots> = sum_list (map ((!) xs) [0..<n])"
    by (metis mset_map sum_mset_sum_list)
  also have "\<dots> = sum_list xs"
    using assms(2) map_nth [of xs] by simp
  finally show ?thesis by (simp add: combine_sum_leaves)
qed

lemma collect_map_Inr: "collect (map (\<lambda>r. Inr (f r)) rs) = Inr (map f rs)"
  by (induction rs) simp_all

lemma seq_plan_leaves: "leaves (seq_plan n) = [0..<Suc n]"
  by (induction n) simp_all

lemma valid_seq_plan: "valid_plan (seq_plan n) (Suc n)"
  unfolding valid_plan_def seq_plan_leaves by (simp add: sorted_sort_id del: upt_Suc)

lemma ceiling_times_gt:
  assumes "0 < (P::int)" "N mod P \<noteq> 0"
  shows "N < \<lceil>real_of_int N / real_of_int P\<rceil> * P"
proof -
  have c: "\<lceil>real_of_int N / real_of_int P\<rceil> = N div P + 1"
    using assms by (simp add: ceiling_div_int)
  have m: "N mod P < P"
    using assms(1) by simp
  have "N div P * P + N mod P = N" by simp
  with m have "N < N div P * P + P" by linarith
  then show ?thesis
    by (simp add: c algebra_simps)
qed

lemma sum_list_length_const:
  "(\<forall>d \<in> set ds. length d = k) \<Longrightarrow> sum_list (map length ds) = length ds * k"
  by (induction ds) simp_all

lemma bcast_from_root:
  "MPI_Bcast (map (\<lambda>rank. if rank = 0 then v else z) [0..<n]) 0 = replicate n v"
proof (cases n)
  case 0
  then show ?thesis by (simp add: MPI_Bcast_def)
next
  case (Suc k)
  have "map (\<lambda>rank. if rank = 0 then v else z) [0..<n] ! 0 = v"
    using Suc by (simp del: upt_Suc)
  then show ?thesis
    by (simp add: MPI_Bcast_def map_replicate_const del: upt_Suc)
qed

lemma sum_rank_plus_one:
  "sum_list (map (\<lambda>rank. of_nat rank + 1) [0..<n]) = (of_nat (n * (n + 1) div 2) :: 'a::semiring_1)"
proof (induction n)
  case 0
  then show ?case by simp
next
  case (Suc n)
  have e: "Suc n * (Suc n + 1) div 2 = n * (n + 1) div 2 + n + 1"
    by (simp add: algebra_simps)
  have "sum_list (map (\<lambda>rank. of_nat rank + 1) [0..<Suc n]) =
      (of_nat (n * (n + 1) div 2) + (of_nat n + 1) :: 'a)"
    using Suc by simp
  also have "\<dots> = of_nat (n * (n + 1) div 2 + n + 1)"
    by (simp add: ac_simps)
  finally show ?case by (simp only: e)
qed

lemma robustnessTest_3_globalSum:
  assumes "valid_plan p numProcs" "1 \<le> numProcs"
  shows "fst (robustnessTest_3 p numProcs) ! 0 = of_nat (numProcs * (numProcs + 1) div 2)"
proof -
  have "combine (+) p (map (\<lambda>rank. of_nat rank + 1) [0..<numProcs]) =
      (sum_list (map (\<lambda>rank. of_nat rank + 1) [0..<numProcs]) :: c_int)"
    using assms(1) by (rule combine_plus_sum_list) simp
  then show ?thesis
    using assms(2) by (simp add: robustnessTest_3_def Let_def MPI_Reduce_root sum_rank_plus_one)
qed

lemma main_program_finished:
  assumes "0 < input" "1 \<le> numProcs"
  shows "main_program mk unif fadd fdiv i2d zero p numProcs input =
    (let valores = map (\<lambda>rank. draws (unif 0 100) (nat input) (mk (int rank + 42)))
                       [0..<numProcs];
         sumaParcial = map (calcularSumaParcial fadd zero) valores;
         sumaTotal = MPI_Reduce fadd p sumaParcial (replicate numProcs zero) 0;
         promedio = fdiv (sumaTotal ! 0) (i2d (input * int numProcs))
     in ([Barrier, Bcast] @ replicate numProcs Barrier @ [Barrier, Reduce, Bcast] @
           replicate numProcs Barrier @ [Barrier],
         Finished \<lparr>N_all = replicate numProcs input, valores_all = valores,
           sumaParcial_all = sumaParcial, sumaTotal_all = sumaTotal,
           promedio_root = promedio, promedioFinal_all = replicate numProcs promedio\<rparr>))"
proof -
  have gen: "map (\<lambda>rank. generarValoresAleatorios mk unif zero
                   (replicate numProcs input ! rank) (int rank)) [0..<numProcs] =
     map (\<lambda>rank. Inr (draws (unif 0 100) (nat input) (mk (int rank + 42)))) [0..<numProcs]"
    using assms(1) by (intro map_cong) (simp_all add: generar_draws)
  show ?thesis
    using assms
    by (simp add: main_program_def bcast_from_root gen collect_map_Inr Let_def del: upt_Suc)
qed

lemma testBroadcast_eq: "testBroadcast numProcs = replicate numProcs (42, True)"
  by (simp add: testBroadcast_def bcast_from_root Let_def del: upt_Suc)

lemma bcast_after_reduce:
  "MPI_Bcast (MPI_Reduce f p send (replicate n z) 0) 0 = replicate n (combine f p send)"
  by (cases n) (simp_all add: MPI_Bcast_def MPI_Reduce_def map_replicate_const)

lemma test2_loop_rounds:
  "iter \<le> 10 \<Longrightarrow>
   test2_loop fadd zero p numProcs data iter seen =
     seen @ replicate (10 - iter) (replicate numProcs (combine fadd p (map (foldl fadd zero) data)))"
proof (induction fadd zero p numProcs data iter seen rule: test2_loop.induct)
  case (1 fadd zero p numProcs data iter seen)
  show ?case
  proof (cases "iter < 10")
    case True
    then obtain k where k: "10 - iter = Suc k" by (cases "10 - iter") auto
    then have k': "10 - Suc iter = k" by simp
    from True have "Suc iter \<le> 10" by simp
    from "1.IH" [OF True refl refl refl refl this] show ?thesis
      using True k k'
      by (subst test2_loop.simps) (simp add: Let_def bcast_after_reduce replicate_app_Cons_same)
  next
    case False
    with "1.prems" have "iter = 10" by simp
    then show ?thesis by (subst test2_loop.simps) simp
  qed
qed

lemma fold_shift:
  assumes comm: "\<And>a b. f a b = f b a"
    and assoc: "\<And>a b c. f (f a b) c = f a (f b c)"
    and unit: "\<And>a. f z a = a"
  shows "fold f xs a = f a (fold f xs z)"
proof (induction xs arbitrary: a)
  case Nil
  show ?case using comm [of a z] unit [of a] by simp
next
  case (Cons x xs)
  have "fold f (x # xs) a = f (f x a) (fold f xs z)"
    using Cons [of "f x a"] by simp
  also have "\<dots> = f a (f x (fold f xs z))"
    using comm [of x a] assoc [of a x "fold f xs z"] by simp
  also have "f x (fold f xs z) = fold f (x # xs) z"
    using Cons [of "f x z"] comm [of x z] unit [of x] by simp
  finally show ?case .
qed

lemma combine_fold_leaves:
  assumes comm: "\<And>a b. f a b = f b a"
    and assoc: "\<And>a b c. f (f a b) c = f a (f b c)"
    and unit: "\<And>a. f z a = a"
  shows "combine f p xs = fold f (map ((!) xs) (leaves p)) z"
proof (induction p)
  case (Leaf r)
  show ?case using comm [of "xs ! r" z] unit [of "xs ! r"] by simp
next
  case (Node a b)
  have "fold f (map ((!) xs) (leaves (Node a b))) z =
      fold f (map ((!) xs) (leaves b)) (fold f (map ((!) xs) (leaves a)) z)"
    by simp
  also have "\<dots> = f (fold f (map ((!) xs) (leaves a)) z) (fold f (map ((!) xs) (leaves b)) z)"
    by (rule fold_shift [OF comm assoc unit])
  finally show ?case using Node by simp
qed

lemma combine_any_order:
  assumes comm: "\<And>a b. f a b = f b a"
    and assoc: "\<And>a b c. f (f a b) c = f a (f b c)"
    and unit: "\<And>a. f z a = a"
    and valid: "valid_plan p n" and len: "length xs = n"
  shows "combine f p xs = foldl f z xs"
proof -
  have swap: "f x \<circ> f y = f y \<circ> f x" for x y
  proof
    fix c
    show "(f x \<circ> f y) c = (f y \<circ> f x) c"
      using assoc [of x y c] assoc [of y x c] comm [of x y] by simp
  qed
  have "mset (map ((!) xs) (leaves p)) = mset (map ((!) xs) [0..<n])"
    using valid_plan_mset [OF valid] by (metis mset_map)
  then have "fold f (map ((!) xs) (leaves p)) = fold f (map ((!) xs) [0..<n])"
    by (intro fold_multiset_equiv) (simp_all add: swap)
  then have "combine f p xs = fold f (map ((!) xs) [0..<n]) z"
    by (simp add: combine_fold_leaves [OF comm assoc unit])
  also have "map ((!) xs) [0..<n] = xs"
    using len map_nth [of xs] by simp
  also have "fold f xs z = foldl f z xs"
  proof -
    have "(\<lambda>a b. f b a) = f" using comm by (intro ext) simp
    then show ?thesis by (simp add: foldl_conv_fold)
  qed
  finally show ?thesis .
qed

lemma draws_range:
  fixes draw :: "'g \<Rightarrow> real \<times> 'g"
  assumes "\<forall>g. a \<le> fst (draw g) \<and> fst (draw g) < b"
  shows "\<forall>v \<in> set (draws draw n g). a \<le> v \<and> v < b"
  using assms by (induction n arbitrary: g) simp_all

lemma main_program_valores:
  assumes run: "main_program mk unif fadd fdiv i2d zero p numProcs N = (tr, Finished res)"
    and r: "r < numProcs"
  shows "valores_all res ! r = draws (unif 0 100) (nat N) (mk (int r + 42))"
proof -
  have pos: "0 < N"
    using run by (cases "N \<le> 0") (simp_all add: main_program_def Let_def)
  from r have "1 \<le> numProcs" by simp
  from run main_program_finished [OF pos this, of mk unif fadd fdiv i2d zero p]
  have "valores_all res =
      map (\<lambda>rank. draws (unif 0 100) (nat N) (mk (int rank + 42))) [0..<numProcs]"
    by (auto simp: Let_def)
  with r show ?thesis by simp
qed

lemma percentage_error:
  fixes u x q r :: real
  assumes u: "0 \<le> u" and x: "0 \<le> x"
    and q: "\<bar>q - x\<bar> \<le> u * x"
    and r: "\<bar>r - q * 100\<bar> \<le> u * \<bar>q * 100\<bar>"
  shows "\<bar>r - 100 * x\<bar> \<le> 100 * (2 * u + u\<^sup>2) * x"
proof -
  have "\<bar>q\<bar> \<le> \<bar>q - x\<bar> + x" using x by linarith
  with q have "\<bar>q\<bar> \<le> u * x + x" by linarith
  then have qa: "\<bar>q\<bar> \<le> (1 + u) * x" by (simp add: algebra_simps)
  have "u * \<bar>q * 100\<bar> = 100 * (u * \<bar>q\<bar>)" by (simp add: abs_mult)
  also have "\<dots> \<le> 100 * (u * ((1 + u) * x))"
    using qa u by (intro mult_left_mono) simp_all
  finally have r': "\<bar>r - q * 100\<bar> \<le> 100 * (u * ((1 + u) * x))"
    using r by simp
  have "\<bar>r - 100 * x\<bar> = \<bar>(r - q * 100) + 100 * (q - x)\<bar>"
    by (simp add: algebra_simps)
  also have "\<dots> \<le> \<bar>r - q * 100\<bar> + \<bar>100 * (q - x)\<bar>"
    by (rule abs_triangle_ineq)
  also have "\<bar>100 * (q - x)\<bar> = 100 * \<bar>q - x\<bar>"
    by (subst abs_mult) simp
  finally have "\<bar>r - 100 * x\<bar> \<le> \<bar>r - q * 100\<bar> + 100 * \<bar>q - x\<bar>" .
  also have "\<dots> \<le> 100 * (u * ((1 + u) * x)) + 100 * (u * x)"
    using r' q by (intro add_mono mult_left_mono) simp_all
  also have "\<dots> = 100 * (2 * u + u\<^sup>2) * x"
    by (simp add: algebra_simps power2_eq_square)
  finally show ?thesis .
qed

lemma main_calls_root:
  "input \<le> 0 \<Longrightarrow> main_calls numProcs input 0 = [Collective Barrier, MPI_Abort 1]"
  by (simp add: main_calls_def)

lemma main_calls_other:
  "rank \<noteq> 0 \<Longrightarrow> take 2 (main_calls numProcs input rank) = [Collective Barrier, Collective Bcast]"
  by (simp add: main_calls_def numeral_2_eq_2)

lemma main_calls_other_length: "rank \<noteq> 0 \<Longrightarrow> 2 \<le> length (main_calls numProcs input rank)"
  by (simp add: main_calls_def)

lemma main_calls_normal_run:
  assumes "0 < input" "1 \<le> numProcs"
  shows "main_calls numProcs input rank =
    map Collective (fst (main_program mk unif fadd fdiv i2d zero p numProcs input))"
  using assms by (simp add: main_program_finished main_calls_def Let_def)

lemma abort_invariant_initial: "1 \<le> numProcs \<Longrightarrow> abort_invariant numProcs (initial numProcs)"
  by (auto simp: abort_invariant_def initial_def)

lemma abort_invariant_invoke:
  assumes input: "input \<le> 0" and procs: "1 \<le> numProcs"
    and inv: "abort_invariant numProcs s"
    and step: "invoke (main_calls numProcs input) s rank = Some s'"
  shows "abort_invariant numProcs s'"
proof -
  let ?k = "invoked s ! rank"
  from step have live: "\<not> aborted s" and rank: "rank < length (invoked s)"
    and least: "\<forall>n \<in> set (invoked s). ?k \<le> n"
    and k: "?k < length (main_calls numProcs input rank)"
    and s': "s' = \<lparr>invoked = (invoked s)[rank := Suc ?k],
                   aborted = is_abort (main_calls numProcs input rank ! ?k)\<rparr>"
    by (auto simp: invoke_def split: if_splits)
  from inv have len: "length (invoked s) = numProcs"
    and two: "\<forall>n \<in> set (invoked s). n \<le> 2"
    and ab: "aborted s \<longleftrightarrow> invoked s ! 0 = 2"
    by (simp_all add: abort_invariant_def)
  from procs len have zero: "invoked s ! 0 \<in> set (invoked s)"
    by (intro nth_mem) simp
  with two live ab have root: "invoked s ! 0 \<le> 1"
    by (metis Suc_1 le_SucE)
  with least zero have k1: "?k \<le> 1"
    using le_trans by blast
  have bound: "\<forall>n \<in> set ((invoked s)[rank := Suc ?k]). n \<le> 2"
  proof
    fix n assume "n \<in> set ((invoked s)[rank := Suc ?k])"
    then have "n \<in> insert (Suc ?k) (set (invoked s))"
      using set_update_subset_insert by fastforce
    with two k1 show "n \<le> 2" by auto
  qed
  show ?thesis
  proof (cases "rank = 0")
    case True
    have calls: "main_calls numProcs input rank = [Collective Barrier, MPI_Abort 1]"
      using True input by (simp add: main_calls_root)
    have flag: "is_abort (main_calls numProcs input rank ! ?k) \<longleftrightarrow> ?k = 1"
      using k1 by (cases "?k = 0") (simp_all add: calls)
    have all1: "\<forall>n \<in> set ((invoked s)[rank := Suc ?k]). 1 \<le> n" if "?k = 1"
    proof
      fix n assume "n \<in> set ((invoked s)[rank := Suc ?k])"
      then have "n \<in> insert (Suc ?k) (set (invoked s))"
        using set_update_subset_insert by fastforce
      with least that show "1 \<le> n" by auto
    qed
    show ?thesis
      using True rank len bound flag all1
      by (auto simp: abort_invariant_def s')
  next
    case False
    have "take 2 (main_calls numProcs input rank) ! ?k = main_calls numProcs input rank ! ?k"
      using k1 by simp
    then have call: "main_calls numProcs input rank ! ?k = [Collective Barrier, Collective Bcast] ! ?k"
      using False by (simp add: main_calls_other)
    have "?k = 0 \<or> ?k = 1"
      using k1 by auto
    then have flag: "\<not> is_abort (main_calls numProcs input rank ! ?k)"
      unfolding call by auto
    show ?thesis
      using False rank len bound flag root
      by (auto simp: abort_invariant_def s')
  qed
qed

lemma abort_invariant_run:
  assumes "input \<le> 0" and "1 \<le> numProcs"
  shows "abort_invariant numProcs s \<Longrightarrow> run (main_calls numProcs input) s schedule = Some s' \<Longrightarrow>
    abort_invariant numProcs s'"
proof (induction schedule arbitrary: s)
  case Nil
  then show ?case by simp
next
  case (Cons rank schedule)
  from Cons.prems(2) obtain t where t: "invoke (main_calls numProcs input) s rank = Some t"
    and rest: "run (main_calls numProcs input) t schedule = Some s'"
    by (auto split: option.splits)
  from abort_invariant_invoke [OF assms Cons.prems(1) t] rest show ?case
    by (rule Cons.IH)
qed

lemma least_rank:
  assumes "xs \<noteq> []"
  shows "\<exists>r < length xs. \<forall>n \<in> set xs. xs ! r \<le> (n::nat)"
proof -
  have "Min (set xs) \<in> set xs"
    using assms by (intro Min_in) simp_all
  then obtain r where "r < length xs" "xs ! r = Min (set xs)"
    by (auto simp: in_set_conv_nth)
  then show ?thesis by auto
qed

subsection \<open>The claims\<close>

text \<open>
  C1. For every group of \<open>numProcs \<ge> 1\<close> processes and every positive \<open>N\<close>, \<open>main\<close> of
  main.cpp runs to its end, every rank holds \<open>N\<close> values, the \<open>sumaParcial\<close> of a rank is
  the left-to-right sum of its values starting from \<open>0.0\<close>, and the \<open>sumaTotal\<close> that
  \<open>MPI_Reduce\<close> delivers at rank 0 is the sum of the \<open>sumaParcial\<close> of all ranks, combined
  in the order the library has chosen. The order is all that is left open: whenever the
  addition is commutative and associative with \<open>0.0\<close> as unit, so that no order changes
  a sum, \<open>sumaTotal\<close> is the plain sum of the partial sums in rank order.
\<close>

theorem global_sum_is_sum_of_partial_sums:
  assumes "1 \<le> numProcs" and "0 < N" and "valid_plan p numProcs"
  shows "\<exists>tr res. main_program mk unif fadd fdiv i2d zero p numProcs N = (tr, Finished res) \<and>
     length (valores_all res) = numProcs \<and>
     (\<forall>v \<in> set (valores_all res). int (length v) = N) \<and>
     sumaParcial_all res = map (calcularSumaParcial fadd zero) (valores_all res) \<and>
     sumaParcial_all res = map (foldl fadd zero) (valores_all res) \<and>
     sumaTotal_all res ! 0 = combine fadd p (sumaParcial_all res) \<and>
     ((\<forall>a b. fadd a b = fadd b a) \<and> (\<forall>a b c. fadd (fadd a b) c = fadd a (fadd b c)) \<and>
      (\<forall>a. fadd zero a = a) \<longrightarrow>
        sumaTotal_all res ! 0 = foldl fadd zero (sumaParcial_all res))"
proof -
  define valores where
    "valores = map (\<lambda>rank. draws (unif 0 100) (nat N) (mk (int rank + 42))) [0..<numProcs]"
  define parcial where "parcial = map (calcularSumaParcial fadd zero) valores"
  define total where "total = MPI_Reduce fadd p parcial (replicate numProcs zero) 0"
  define promedio where "promedio = fdiv (total ! 0) (i2d (N * int numProcs))"
  define res where "res = \<lparr>N_all = replicate numProcs N, valores_all = valores,
           sumaParcial_all = parcial, sumaTotal_all = total,
           promedio_root = promedio, promedioFinal_all = replicate numProcs promedio\<rparr>"
  have run: "main_program mk unif fadd fdiv i2d zero p numProcs N =
      ([Barrier, Bcast] @ replicate numProcs Barrier @ [Barrier, Reduce, Bcast] @
           replicate numProcs Barrier @ [Barrier], Finished res)"
    using assms(1,2)
    by (simp add: main_program_finished Let_def res_def promedio_def total_def parcial_def valores_def)
  have len: "length (valores_all res) = numProcs"
    by (simp add: res_def valores_def)
  have each: "\<forall>v \<in> set (valores_all res). int (length v) = N"
    using assms(2) by (auto simp: res_def valores_def)
  have parcial: "sumaParcial_all res = map (calcularSumaParcial fadd zero) (valores_all res)"
    by (simp add: res_def parcial_def)
  have parcial': "sumaParcial_all res = map (foldl fadd zero) (valores_all res)"
    by (simp add: res_def parcial_def calcularSumaParcial_def)
  have root: "sumaTotal_all res ! 0 = combine fadd p (sumaParcial_all res)"
    using assms(1) by (simp add: res_def total_def MPI_Reduce_root)
  have exact: "sumaTotal_all res ! 0 = foldl fadd zero (sumaParcial_all res)"
    if "(\<forall>a b. fadd a b = fadd b a) \<and> (\<forall>a b c. fadd (fadd a b) c = fadd a (fadd b c)) \<and>
      (\<forall>a. fadd zero a = a)"
  proof -
    note comm = that [THEN conjunct1, THEN spec, THEN spec]
    note assoc = that [THEN conjunct2, THEN conjunct1, THEN spec, THEN spec, THEN spec]
    note unit = that [THEN conjunct2, THEN conjunct2, THEN spec]
    have "length (sumaParcial_all res) = numProcs"
      using len by (simp add: parcial)
    from combine_any_order [of fadd zero, OF comm assoc unit assms(3) this] root
    show ?thesis by simp
  qed
  from run len each parcial parcial' root exact show ?thesis by blast
qed

theorem global_sum_is_sum_of_partial_sums_witness:
  "(1::nat) \<le> 2 \<and> (0::int) < 3 \<and> valid_plan (Node (Leaf 1) (Leaf 0)) 2 \<and>
   (\<forall>a b :: int. a + b = b + a) \<and> (\<forall>a b c :: int. (a + b) + c = a + (b + c)) \<and>
   (\<forall>a :: int. 0 + a = a) \<and>
   (\<exists>tr res. main_program (\<lambda>seed. seed) (\<lambda>a b g. (g, g + 1)) (+) (div) (\<lambda>i. i) 0
        (Node (Leaf 1) (Leaf 0)) 2 3 = (tr, Finished res) \<and>
      valores_all res = [[42, 43, 44], [43, 44, 45]] \<and>
      sumaParcial_all res = [129, 132] \<and>
      sumaTotal_all res ! 0 = 261)"
proof -
  have v: "valid_plan (Node (Leaf 1) (Leaf 0)) 2"
    by (simp add: valid_plan_def upt_conv_Cons)
  have run: "main_program (\<lambda>seed. seed) (\<lambda>a b g. (g, g + 1)) (+) (div) (\<lambda>i. i) (0::int)
        (Node (Leaf 1) (Leaf 0)) 2 3 =
      ([Barrier, Bcast, Barrier, Barrier, Barrier, Reduce, Bcast, Barrier, Barrier, Barrier],
       Finished \<lparr>N_all = [3, 3], valores_all = [[42, 43, 44], [43, 44, 45]],
         sumaParcial_all = [129, 132], sumaTotal_all = [261, 0],
         promedio_root = 43, promedioFinal_all = [43, 43]\<rparr>)"
    by (simp add: main_program_finished Let_def upt_conv_Cons eval_nat_numeral
        calcularSumaParcial_def MPI_Reduce_def)
  show ?thesis
    using v run global_sum_is_sum_of_partial_sums
      [of 2 3 "Node (Leaf 1) (Leaf 0)" "\<lambda>seed. seed" "\<lambda>a b g. (g, g + 1)" "(+)" "(div)"
        "\<lambda>i. i" 0]
    by simp
qed

text \<open>
  C2, as amended. If the \<open>N\<close> that rank 0 reads is zero or negative, then in every run,
  however the processes are scheduled: rank 0 invokes the opening barrier and then
  \<open>MPI_Abort\<close>, and nothing else; every other rank invokes at most that barrier and the
  first broadcast, in which it waits; no rank invokes a reduce or any later collective
  operation; the abort is triggered only after every rank has invoked the barrier; and
  as long as the group is not aborted some rank can still make a call, so the run ends
  with the abort of the whole group.
\<close>

theorem abort_after_opening_barrier:
  assumes "input \<le> 0" and "1 \<le> numProcs"
    and "run (main_calls numProcs input) (initial numProcs) schedule = Some s"
  shows "prefix (calls_invoked (main_calls numProcs input) s 0) [Collective Barrier, MPI_Abort 1] \<and>
    (\<forall>rank < numProcs. rank \<noteq> 0 \<longrightarrow>
       prefix (calls_invoked (main_calls numProcs input) s rank)
         [Collective Barrier, Collective Bcast]) \<and>
    (\<forall>rank < numProcs. Collective Reduce \<notin> set (calls_invoked (main_calls numProcs input) s rank)) \<and>
    (aborted s \<longleftrightarrow>
       calls_invoked (main_calls numProcs input) s 0 = [Collective Barrier, MPI_Abort 1]) \<and>
    (aborted s \<longrightarrow>
       (\<forall>rank < numProcs. Collective Barrier \<in> set (calls_invoked (main_calls numProcs input) s rank))) \<and>
    (\<not> aborted s \<longrightarrow> (\<exists>rank < numProcs. invoke (main_calls numProcs input) s rank \<noteq> None))"
proof -
  let ?calls = "main_calls numProcs input"
  have inv: "abort_invariant numProcs s"
    using abort_invariant_run [OF assms(1,2) abort_invariant_initial [OF assms(2)] assms(3)] .
  then have len: "length (invoked s) = numProcs"
    and two: "\<forall>n \<in> set (invoked s). n \<le> 2"
    and ab: "aborted s \<longleftrightarrow> invoked s ! 0 = 2"
    and all1: "aborted s \<longrightarrow> (\<forall>n \<in> set (invoked s). 1 \<le> n)"
    by (simp_all add: abort_invariant_def)
  have le2: "invoked s ! rank \<le> 2" if "rank < numProcs" for rank
    using that two len by simp
  have root: "calls_invoked ?calls s 0 = take (invoked s ! 0) [Collective Barrier, MPI_Abort 1]"
    using assms(1) by (simp add: calls_invoked_def main_calls_root)
  have other: "calls_invoked ?calls s rank = take (invoked s ! rank) [Collective Barrier, Collective Bcast]"
    if "rank < numProcs" "rank \<noteq> 0" for rank
  proof -
    have "take (invoked s ! rank) (?calls rank) = take (invoked s ! rank) (take 2 (?calls rank))"
      using le2 [OF that(1)] by (simp add: min_def)
    then show ?thesis
      using that(2) by (simp add: calls_invoked_def main_calls_other)
  qed
  have c1: "prefix (calls_invoked ?calls s 0) [Collective Barrier, MPI_Abort 1]"
    by (simp add: root take_is_prefix)
  have c2: "\<forall>rank < numProcs. rank \<noteq> 0 \<longrightarrow>
      prefix (calls_invoked ?calls s rank) [Collective Barrier, Collective Bcast]"
    by (simp add: other take_is_prefix)
  have c3: "\<forall>rank < numProcs. Collective Reduce \<notin> set (calls_invoked ?calls s rank)"
  proof (intro allI impI)
    fix rank assume r: "rank < numProcs"
    show "Collective Reduce \<notin> set (calls_invoked ?calls s rank)"
    proof (cases "rank = 0")
      case True
      have "set (calls_invoked ?calls s 0) \<subseteq> set [Collective Barrier, MPI_Abort 1]"
        unfolding root by (rule set_take_subset)
      with True show ?thesis by auto
    next
      case False
      have "set (calls_invoked ?calls s rank) \<subseteq> set [Collective Barrier, Collective Bcast]"
        unfolding other [OF r False] by (rule set_take_subset)
      then show ?thesis by auto
    qed
  qed
  have c4: "aborted s \<longleftrightarrow> calls_invoked ?calls s 0 = [Collective Barrier, MPI_Abort 1]"
    using le2 [of 0] assms(2) by (auto simp: root ab take_Suc_Cons numeral_2_eq_2 le_Suc_eq)
  have c5: "aborted s \<longrightarrow> (\<forall>rank < numProcs. Collective Barrier \<in> set (calls_invoked ?calls s rank))"
  proof (intro allI impI)
    fix rank assume a: "aborted s" and r: "rank < numProcs"
    from a all1 r len have "1 \<le> invoked s ! rank" by simp
    then obtain k where k: "invoked s ! rank = Suc k" by (cases "invoked s ! rank") auto
    show "Collective Barrier \<in> set (calls_invoked ?calls s rank)"
    proof (cases "rank = 0")
      case True
      with k have "invoked s ! 0 = Suc k" by simp
      with True show ?thesis by (simp add: root)
    next
      case False
      from other [OF r False] k show ?thesis by simp
    qed
  qed
  have c6: "\<not> aborted s \<longrightarrow> (\<exists>rank < numProcs. invoke ?calls s rank \<noteq> None)"
  proof
    assume live: "\<not> aborted s"
    from assms(2) len have "invoked s \<noteq> []" by auto
    from least_rank [OF this] obtain r where r: "r < length (invoked s)"
      and least: "\<forall>n \<in> set (invoked s). invoked s ! r \<le> n"
      by blast
    from assms(2) len have "invoked s ! 0 \<in> set (invoked s)"
      by (intro nth_mem) simp
    with least have "invoked s ! r \<le> invoked s ! 0" by blast
    moreover from live ab le2 [of 0] assms(2) have "invoked s ! 0 \<le> 1" by simp
    ultimately have k1: "invoked s ! r \<le> 1" by simp
    have "2 \<le> length (?calls r)"
      using assms(1) by (cases "r = 0") (simp_all add: main_calls_root main_calls_other_length)
    with k1 have "invoked s ! r < length (?calls r)" by simp
    with live r least have "invoke ?calls s r \<noteq> None"
      by (simp add: invoke_def)
    with r len show "\<exists>rank < numProcs. invoke ?calls s rank \<noteq> None" by auto
  qed
  from c1 c2 c3 c4 c5 c6 show ?thesis by blast
qed

theorem abort_after_opening_barrier_witness:
  "(- 3 :: int) \<le> 0 \<and> (1::nat) \<le> 2 \<and>
   run (main_calls 2 (- 3)) (initial 2) [1, 0, 1, 0] = Some \<lparr>invoked = [2, 2], aborted = True\<rparr> \<and>
   prefix (calls_invoked (main_calls 2 (- 3)) \<lparr>invoked = [2, 2], aborted = True\<rparr> 0)
     [Collective Barrier, MPI_Abort 1] \<and>
   Collective Reduce \<notin> set (calls_invoked (main_calls 2 (- 3)) \<lparr>invoked = [2, 2], aborted = True\<rparr> 1)"
proof -
  have r: "run (main_calls 2 (- 3)) (initial 2) [1, 0, 1, 0] = Some \<lparr>invoked = [2, 2], aborted = True\<rparr>"
    by (simp add: invoke_def initial_def main_calls_def numeral_2_eq_2)
  from abort_after_opening_barrier [of "- 3" 2 "[1, 0, 1, 0]", OF _ _ r] r
  show ?thesis by simp
qed

text \<open>
  C2 as stated fails. With two processes and the input 0 there is a run in which, before
  the abort is triggered, rank 0 has invoked the barrier and rank 1 has invoked the
  barrier and then the broadcast; the next call of rank 0 is the abort.
\<close>

theorem abort_before_any_collective_counterexample:
  "run (main_calls 2 0) (initial 2) [0, 1, 1] = Some \<lparr>invoked = [1, 2], aborted = False\<rparr> \<and>
   calls_invoked (main_calls 2 0) \<lparr>invoked = [1, 2], aborted = False\<rparr> 0 = [Collective Barrier] \<and>
   calls_invoked (main_calls 2 0) \<lparr>invoked = [1, 2], aborted = False\<rparr> 1 =
     [Collective Barrier, Collective Bcast] \<and>
   run (main_calls 2 0) (initial 2) [0, 1, 1, 0] = Some \<lparr>invoked = [2, 2], aborted = True\<rparr>"
  by (simp add: invoke_def initial_def main_calls_def calls_invoked_def numeral_2_eq_2)

text \<open>
  C3. With two processes whose tests all pass, rank 0 exits with code 0 and rank 1 with
  code 1: \<open>resultadoTotal\<close> of rank 1 is still 0 after \<open>MPI_Reduce\<close>, which delivers the
  sum to rank 0 alone, so rank 1 compares 0 with \<open>numProcs\<close>. When a test of rank 1
  fails, both ranks exit with code 1.
\<close>

theorem test_main_exit_codes_two_processes:
  "test_main [[True, True, True, True, True], [True, True, True, True, True]] (seq_plan 1) 2 = [0, 1] \<and>
   test_main [[True, True, True, True, True], [True, False, True, True, True]] (seq_plan 1) 2 = [1, 1]"
  by (simp add: test_main_def MPI_Reduce_def Let_def numeral_2_eq_2)

text \<open>
  C4. \<open>generarValoresAleatorios(N, rank)\<close> returns, for every \<open>N \<ge> 0\<close>, the first \<open>N\<close> values
  that the distribution constructed with the bounds \<open>(0.0, 100.0)\<close> draws from the engine
  seeded with \<open>rank + 42\<close>: a sequence of \<open>N\<close> values that \<open>N\<close> and \<open>rank\<close> determine. Each
  value lies in \<open>[0, 100)\<close>, the bounds the function passes, since the library's
  distribution stays within the bounds it is constructed with. The group size plays no
  part: in \<open>main\<close>, whatever the number of processes, rank \<open>r\<close> holds exactly
  \<open>generarValoresAleatorios(N, r)\<close>.
\<close>

theorem generated_values_deterministic:
  fixes unif :: "real \<Rightarrow> real \<Rightarrow> 'g \<Rightarrow> real \<times> 'g"
  assumes "0 \<le> N"
  shows "generarValoresAleatorios mk unif 0 N rank =
       Inr (draws (unif 0 100) (nat N) (mk (rank + 42))) \<and>
     length (draws (unif 0 100) (nat N) (mk (rank + 42))) = nat N \<and>
     (uniform_real_contract unif \<longrightarrow>
        (\<forall>v \<in> set (draws (unif 0 100) (nat N) (mk (rank + 42))). 0 \<le> v \<and> v < 100)) \<and>
     (\<forall>fadd fdiv i2d p numProcs tr res r.
        main_program mk unif fadd fdiv i2d 0 p numProcs N = (tr, Finished res) \<and> r < numProcs \<longrightarrow>
        generarValoresAleatorios mk unif 0 N (int r) = Inr (valores_all res ! r))"
proof -
  have gen: "generarValoresAleatorios mk unif 0 N k =
      Inr (draws (unif 0 100) (nat N) (mk (k + 42)))" for k
    using assms by (rule generar_draws)
  have len: "length (draws (unif 0 100) (nat N) (mk (rank + 42))) = nat N"
    by (rule draws_length)
  have range: "\<forall>v \<in> set (draws (unif 0 100) (nat N) (mk (rank + 42))). 0 \<le> v \<and> v < 100"
    if "uniform_real_contract unif"
  proof (rule draws_range)
    from that show "\<forall>g. 0 \<le> fst (unif 0 100 g) \<and> fst (unif 0 100 g) < 100"
      by (simp add: uniform_real_contract_def)
  qed
  have prog: "generarValoresAleatorios mk unif 0 N (int r) = Inr (valores_all res ! r)"
    if "main_program mk unif fadd fdiv i2d 0 p numProcs N = (tr, Finished res) \<and> r < numProcs"
    for fadd fdiv i2d p numProcs tr res r
    using that main_program_valores [of mk unif fadd fdiv i2d 0 p numProcs N tr res r]
    by (simp add: gen)
  from gen [of rank] len range prog show ?thesis
    by blast
qed

theorem generated_values_deterministic_witness:
  "(0::int) \<le> 3 \<and>
   uniform_real_contract (\<lambda>a b g. (a + (b - a) * (real (g mod 100) / 100), Suc g)) \<and>
   generarValoresAleatorios (\<lambda>seed. nat seed)
     (\<lambda>a b g. (a + (b - a) * (real (g mod 100) / 100), Suc g)) 0 3 1 = Inr [43, 44, 45] \<and>
   list_all (\<lambda>v. 0 \<le> v \<and> v < 100) [43, 44, 45 :: real]"
proof -
  let ?unif = "\<lambda>(a::real) b (g::nat). (a + (b - a) * (real (g mod 100) / 100), Suc g)"
  have c: "uniform_real_contract ?unif"
  proof (unfold uniform_real_contract_def, intro allI impI conjI)
    fix a b :: real and g :: nat
    assume ab: "a < b"
    have f0: "0 \<le> real (g mod 100) / 100" by simp
    have "g mod 100 < 100" by simp
    then have f1: "real (g mod 100) / 100 < 1" by simp
    from ab f0 have "0 \<le> (b - a) * (real (g mod 100) / 100)" by simp
    then show "a \<le> fst (?unif a b g)" by simp
    from ab f1 have "(b - a) * (real (g mod 100) / 100) < (b - a) * 1"
      by (intro mult_strict_left_mono) simp_all
    then show "fst (?unif a b g) < b" by simp
  qed
  have d: "draws (?unif 0 100) (nat 3) (nat (1 + 42)) = [43, 44, 45]"
    by (simp add: numeral_3_eq_3)
  from generated_values_deterministic [of 3 "\<lambda>seed. nat seed" ?unif 1]
  have "generarValoresAleatorios (\<lambda>seed. nat seed) ?unif 0 3 1 =
        Inr (draws (?unif 0 100) (nat 3) (nat (1 + 42))) \<and>
      (uniform_real_contract ?unif \<longrightarrow>
        (\<forall>v \<in> set (draws (?unif 0 100) (nat 3) (nat (1 + 42))). 0 \<le> v \<and> v < 100))"
    by simp
  with c d show ?thesis by simp
qed

text \<open>
  C5, as amended. When every participant of rank \<open>r\<close> in \<open>[0, numProcs)\<close> contributes the
  integer \<open>r + 1\<close> to the \<open>MPI_INT\<close> sum-reduction of test 3, and the group has at most
  65535 participants, the value rank 0 receives is the triangular number
  \<open>numProcs * (numProcs + 1) / 2\<close> exactly, whatever order the library combines in.
\<close>

theorem triangular_reduction_exact:
  assumes "1 \<le> numProcs" and "numProcs \<le> 65535" and "valid_plan p numProcs"
  shows "sint (fst (robustnessTest_3 p numProcs) ! 0) = int numProcs * (int numProcs + 1) div 2"
proof -
  have "numProcs * (numProcs + 1) \<le> 65535 * 65536"
    using assms(2) by (intro mult_mono) simp_all
  then have b: "numProcs * (numProcs + 1) div 2 < 2 ^ 31"
    by simp
  have "sint (of_nat (numProcs * (numProcs + 1) div 2) :: c_int) = int (numProcs * (numProcs + 1) div 2)"
    using b by (simp add: signed_of_nat signed_take_bit_int_eq_self)
  also have "\<dots> = int numProcs * (int numProcs + 1) div 2"
    by (simp add: zdiv_int algebra_simps)
  finally show ?thesis
    using assms by (simp add: robustnessTest_3_globalSum)
qed

theorem triangular_reduction_exact_witness:
  "(1::nat) \<le> 3 \<and> (3::nat) \<le> 65535 \<and> valid_plan (Node (Leaf 2) (Node (Leaf 0) (Leaf 1))) 3 \<and>
   sint (fst (robustnessTest_3 (Node (Leaf 2) (Node (Leaf 0) (Leaf 1))) 3) ! 0) = 6"
proof -
  have v: "valid_plan (Node (Leaf 2) (Node (Leaf 0) (Leaf 1))) 3"
    by (simp add: valid_plan_def upt_conv_Cons)
  show ?thesis
    using triangular_reduction_exact [of 3 "Node (Leaf 2) (Node (Leaf 0) (Leaf 1))"] v by simp
qed

text \<open>
  C5 as stated fails for a group of 65536 processes: the triangular number
  \<open>65536 * 65537 / 2 = 2147516416\<close> is not a value of the 32-bit \<open>int\<close>, and the sum that
  rank 0 receives has wrapped around to \<open>-2147450880\<close>.
\<close>

theorem triangular_reduction_counterexample:
  "valid_plan (seq_plan 65535) 65536 \<and>
   sint (fst (robustnessTest_3 (seq_plan 65535) 65536) ! 0) = - 2147450880 \<and>
   sint (fst (robustnessTest_3 (seq_plan 65535) 65536) ! 0) \<noteq> 65536 * (65536 + 1) div 2"
proof -
  have v: "valid_plan (seq_plan 65535) 65536"
    using valid_seq_plan [of 65535] by simp
  have "fst (robustnessTest_3 (seq_plan 65535) 65536) ! 0 = (of_nat (65536 * (65536 + 1) div 2) :: c_int)"
    using v by (rule robustnessTest_3_globalSum) simp
  then have "sint (fst (robustnessTest_3 (seq_plan 65535) 65536) ! 0) = - 2147450880"
    by simp
  with v show ?thesis by simp
qed

text \<open>
  C6. In the strong-scaling variant the length of each participant's dataset is the
  ceiling of \<open>N / numProcs\<close>: for every \<open>N \<ge> 1\<close> and every group of at least one process,
  \<open>N / numProcs\<close> in integer division, incremented when \<open>N % numProcs\<close> is not zero,
  is \<open>\<lceil>N / numProcs\<rceil>\<close>, and every dataset \<open>strongScalingAnalysis\<close> generates has that
  many elements. The value lies between 1 and \<open>N\<close>, so the increment stays within the
  range of the C++ \<open>int\<close> that holds \<open>N\<close>.
\<close>

theorem strong_scaling_elements_ceiling:
  assumes "1 \<le> N" and "1 \<le> numProcs"
  shows "elementsPerProc N (int numProcs) = Inr \<lceil>real_of_int N / real numProcs\<rceil> \<and>
    1 \<le> \<lceil>real_of_int N / real numProcs\<rceil> \<and> \<lceil>real_of_int N / real numProcs\<rceil> \<le> N \<and>
    (\<exists>res. strongScalingAnalysis mk draw fadd fdiv i2d zero p N numProcs = Inr res \<and>
       length (data_all res) = numProcs \<and>
       (\<forall>d \<in> set (data_all res). int (length d) = \<lceil>real_of_int N / real numProcs\<rceil>))"
proof -
  let ?c = "\<lceil>real_of_int N / real numProcs\<rceil>"
  have e: "elementsPerProc N (int numProcs) = Inr ?c"
    using assms elementsPerProc_ceiling [of N "int numProcs"] by simp
  have "0 < real_of_int N / real numProcs"
    using assms by simp
  then have one: "1 \<le> ?c"
    by (simp add: int_one_le_iff_zero_less)
  then have pos: "0 \<le> ?c"
    by simp
  have "real_of_int N \<le> real_of_int N * real numProcs"
    using assms by (simp add: mult_le_cancel_left1)
  then have "real_of_int N / real numProcs \<le> real_of_int N"
    using assms by (simp add: field_simps)
  then have le: "?c \<le> N"
    by (rule ceiling_le)
  show ?thesis
    using e one le pos by (simp add: strongScalingAnalysis_Inr [OF e pos] Let_def)
qed

theorem strong_scaling_elements_ceiling_witness:
  "(1::int) \<le> 10 \<and> (1::nat) \<le> 3 \<and> elementsPerProc 10 (int 3) = Inr 4 \<and>
   elementsPerProc 9 (int 3) = Inr 3"
  using strong_scaling_elements_ceiling [of 10 3, THEN conjunct1]
    strong_scaling_elements_ceiling [of 9 3, THEN conjunct1]
  by simp

text \<open>
  C7. Broadcast round trip. Whatever value rank 0 has placed in its buffer, after the
  broadcast every rank of the group, rank 0 included, holds that very value. So in
  \<open>testBroadcast\<close> every rank ends with \<open>valorRecibido = 42\<close>, the 32-bit value rank 0 has
  set, bit for bit, and with \<open>resultado = true\<close>; and in \<open>main\<close> of main.cpp, whenever the
  program runs to its end, every rank ends with a \<open>promedioFinal\<close> equal to the one rank 0
  has computed, with no arithmetic in between.
\<close>

theorem broadcast_round_trip:
  "(\<forall>buffer v rank. rank < length buffer \<longrightarrow> MPI_Bcast (buffer[0 := v]) 0 ! rank = v) \<and>
   (\<forall>rank < numProcs. testBroadcast numProcs ! rank = (42, True)) \<and>
   (\<forall>tr res. main_program mk unif fadd fdiv i2d zero p numProcs input =
        (tr, Finished res) \<longrightarrow>
      length (promedioFinal_all res) = numProcs \<and>
      (\<forall>rank < numProcs. promedioFinal_all res ! rank = promedio_root res))"
proof (intro conjI allI impI)
  fix buffer :: "'a list" and v and rank
  assume r: "rank < length buffer"
  then have "0 < length buffer"
    by (cases buffer) simp_all
  then have "(buffer[0 := v]) ! 0 = v"
    by (rule nth_list_update_eq)
  with r show "MPI_Bcast (buffer[0 := v]) 0 ! rank = v"
    by (simp add: MPI_Bcast_def)
next
  fix rank assume "rank < numProcs"
  then show "testBroadcast numProcs ! rank = (42, True)"
    by (simp add: testBroadcast_eq)
next
  fix tr res
  assume run: "main_program mk unif fadd fdiv i2d zero p numProcs input =
    (tr, Finished res)"
  have b: "promedioFinal_all res = replicate numProcs (promedio_root res)"
    using run
    by (auto simp: main_program_def Let_def bcast_from_root split: if_splits sum.splits
        simp del: upt_Suc)
  show "length (promedioFinal_all res) = numProcs"
    by (simp add: b)
  fix rank assume "rank < numProcs"
  then show "promedioFinal_all res ! rank = promedio_root res"
    by (simp add: b)
qed

theorem broadcast_round_trip_witness:
  "(2::nat) < length [0, 0, 0 :: c_int] \<and> MPI_Bcast ([0, 0, 0 :: c_int][0 := 7]) 0 ! 2 = 7 \<and>
   (2::nat) < 3 \<and> testBroadcast 3 ! 2 = (42, True) \<and>
   (\<exists>tr res. main_program (\<lambda>seed. nat seed) (\<lambda>a b g. (g, Suc g)) (+) (div) nat 0
        (seq_plan 2) 3 2 = (tr, Finished res) \<and>
      length (promedioFinal_all res) = 3 \<and>
      promedioFinal_all res ! 2 = promedio_root res)"
proof -
  note rt = broadcast_round_trip
    [where 'a = c_int,
      of 3 "\<lambda>seed. nat seed" "\<lambda>a b g. (g, Suc g)" "(+)" "(div)" nat 0 "seq_plan 2" 2]
  obtain tr res where
    run: "main_program (\<lambda>seed. nat seed) (\<lambda>a b g. (g, Suc g)) (+) (div) nat 0
      (seq_plan 2) 3 2 = (tr, Finished res)"
    by (simp add: main_program_finished Let_def)
  have "MPI_Bcast ([0, 0, 0 :: c_int][0 := 7]) 0 ! 2 = 7"
    by (rule rt [THEN conjunct1, rule_format]) simp
  moreover have "testBroadcast 3 ! 2 = (42, True)"
    using rt by simp
  moreover have "length (promedioFinal_all res) = 3 \<and> promedioFinal_all res ! 2 = promedio_root res"
    using rt run by simp
  ultimately show ?thesis
    using run by auto
qed

text \<open>
  C8. Repeated rounds. The ten reduce-then-broadcast rounds of test 2 over the fixed data
  of the participants give, at every rank and in every round, the same global sum: the
  combination of the partial sums of the data. \<open>localSum\<close> and \<open>globalSum\<close> start afresh in
  every round and nothing is carried from one round to the next.
\<close>

theorem repeated_rounds_same_global_sum:
  "robustnessTest_2 mk draw fadd zero p numProcs =
     replicate 10 (replicate numProcs
       (combine fadd p
          (map (\<lambda>rank. foldl fadd zero (draws draw 1000 (mk (int rank + 42)))) [0..<numProcs])))"
  by (simp add: robustnessTest_2_def Let_def test2_loop_rounds fill_valores_draws comp_def)

text \<open>
  C9. Communication against computation. For the two measured times of a round, neither
  negative, with a positive \<open>totalTime\<close>, the percentages \<open>compRatio\<close> and \<open>commRatio\<close> that
  rank 0 reports add up to 100 up to rounding: when each of the five floating-point
  operations of the computation rounds with a relative error of at most \<open>u < 1\<close>, the
  sum differs from 100 by at most \<open>100 (3u + u\<^sup>2) / (1 - u)\<close>, about \<open>300 u\<close>; in
  exact arithmetic (\<open>u = 0\<close>) it is 100.
\<close>

theorem ratios_sum_to_100:
  fixes u compTime commTime :: real
  assumes u: "0 \<le> u" "u < 1"
    and times: "0 \<le> compTime" "0 \<le> commTime"
    and total: "0 < fadd compTime commTime"
    and add: "rounds_to u (compTime + commTime) (fadd compTime commTime)"
    and div1: "rounds_to u (compTime / fadd compTime commTime)
                 (fdiv compTime (fadd compTime commTime))"
    and div2: "rounds_to u (commTime / fadd compTime commTime)
                 (fdiv commTime (fadd compTime commTime))"
    and mul1: "rounds_to u (fdiv compTime (fadd compTime commTime) * 100)
                 (fmul (fdiv compTime (fadd compTime commTime)) 100)"
    and mul2: "rounds_to u (fdiv commTime (fadd compTime commTime) * 100)
                 (fmul (fdiv commTime (fadd compTime commTime)) 100)"
  shows "\<bar>fst (comm_comp_ratios fadd fdiv fmul compTime commTime) +
          snd (comm_comp_ratios fadd fdiv fmul compTime commTime) - 100\<bar>
         \<le> 100 * (3 * u + u\<^sup>2) / (1 - u)"
proof -
  define s where "s = compTime + commTime"
  define t where "t = fadd compTime commTime"
  define r1 where "r1 = fmul (fdiv compTime t) 100"
  define r2 where "r2 = fmul (fdiv commTime t) 100"
  have ratios: "comm_comp_ratios fadd fdiv fmul compTime commTime = (r1, r2)"
    by (simp add: comm_comp_ratios_def Let_def r1_def r2_def t_def)
  have t: "0 < t" using total by (simp add: t_def)
  have s0: "0 \<le> s" using times by (simp add: s_def)
  have ts: "\<bar>t - s\<bar> \<le> u * s"
    using add s0 by (simp add: rounds_to_def s_def t_def)
  then have "t \<le> (1 + u) * s" by (simp add: algebra_simps abs_le_iff)
  with t u(1) have s: "0 < s"
    by (cases "s = 0") (use s0 in simp_all)
  from ts have low: "(1 - u) * s \<le> t" by (simp add: algebra_simps abs_le_iff)
  have x1: "0 \<le> compTime / t" and x2: "0 \<le> commTime / t"
    using times t by simp_all
  have e1: "\<bar>r1 - 100 * (compTime / t)\<bar> \<le> 100 * (2 * u + u\<^sup>2) * (compTime / t)"
  proof (rule percentage_error [OF u(1) x1])
    have "\<bar>fdiv compTime t - compTime / t\<bar> \<le> u * \<bar>compTime / t\<bar>"
      using div1 by (simp only: rounds_to_def t_def)
    then show "\<bar>fdiv compTime t - compTime / t\<bar> \<le> u * (compTime / t)"
      by (simp only: abs_of_nonneg [OF x1])
    show "\<bar>r1 - fdiv compTime t * 100\<bar> \<le> u * \<bar>fdiv compTime t * 100\<bar>"
      using mul1 by (simp only: rounds_to_def t_def r1_def)
  qed
  have e2: "\<bar>r2 - 100 * (commTime / t)\<bar> \<le> 100 * (2 * u + u\<^sup>2) * (commTime / t)"
  proof (rule percentage_error [OF u(1) x2])
    have "\<bar>fdiv commTime t - commTime / t\<bar> \<le> u * \<bar>commTime / t\<bar>"
      using div2 by (simp only: rounds_to_def t_def)
    then show "\<bar>fdiv commTime t - commTime / t\<bar> \<le> u * (commTime / t)"
      by (simp only: abs_of_nonneg [OF x2])
    show "\<bar>r2 - fdiv commTime t * 100\<bar> \<le> u * \<bar>fdiv commTime t * 100\<bar>"
      using mul2 by (simp only: rounds_to_def t_def r2_def)
  qed
  have "100 * (compTime / t) + 100 * (commTime / t) - 100 = 100 * ((s - t) / t)"
    using t by (simp add: s_def field_simps)
  then have "\<bar>100 * (compTime / t) + 100 * (commTime / t) - 100\<bar> = \<bar>100 * ((s - t) / t)\<bar>"
    by (simp only:)
  moreover have "\<bar>100 * ((s - t) / t)\<bar> = \<bar>100 :: real\<bar> * (\<bar>s - t\<bar> / \<bar>t\<bar>)"
    by (simp only: abs_mult abs_divide)
  moreover have "\<bar>100 :: real\<bar> = 100"
    by simp
  moreover have "\<bar>t\<bar> = t"
    using t by simp
  moreover have "\<bar>s - t\<bar> = \<bar>t - s\<bar>"
    by (rule abs_minus_commute)
  ultimately have "\<bar>100 * (compTime / t) + 100 * (commTime / t) - 100\<bar> = 100 * (\<bar>t - s\<bar> / t)"
    by (simp only:)
  also have "\<dots> \<le> 100 * (u * s / t)"
    using ts t by (simp add: divide_right_mono)
  finally have e3: "\<bar>100 * (compTime / t) + 100 * (commTime / t) - 100\<bar> \<le> 100 * (u * s / t)" .
  have "\<bar>r1 + r2 - 100\<bar> \<le> \<bar>r1 - 100 * (compTime / t)\<bar> + \<bar>r2 - 100 * (commTime / t)\<bar> +
      \<bar>100 * (compTime / t) + 100 * (commTime / t) - 100\<bar>"
    by linarith
  also have "\<dots> \<le> 100 * (2 * u + u\<^sup>2) * (compTime / t) + 100 * (2 * u + u\<^sup>2) * (commTime / t) +
      100 * (u * s / t)"
    using e1 e2 e3 by linarith
  also have "\<dots> = 100 * (3 * u + u\<^sup>2) * (s / t)"
    using t by (simp add: s_def field_simps)
  also have "\<dots> \<le> 100 * (3 * u + u\<^sup>2) * (1 / (1 - u))"
  proof (rule mult_left_mono)
    have "s / t \<le> s / ((1 - u) * s)"
      using low s u by (intro divide_left_mono) (simp_all add: less_imp_le t)
    also have "\<dots> = 1 / (1 - u)" using s by simp
    finally show "s / t \<le> 1 / (1 - u)" .
    show "0 \<le> 100 * (3 * u + u\<^sup>2)" using u(1) by simp
  qed
  finally show ?thesis by (simp add: ratios)
qed

theorem ratios_sum_to_100_witness:
  "(0::real) \<le> 1 / 1000 \<and> (1 / 1000 :: real) < 1 \<and> (0::real) \<le> 1 \<and> (0::real) \<le> 3 \<and>
   (0::real) < 1 + 3 \<and>
   rounds_to (1 / 1000) (1 + 3) (1 + 3) \<and>
   rounds_to (1 / 1000) (1 / (1 + 3)) (1 / (1 + 3) * (1001 / 1000)) \<and>
   rounds_to (1 / 1000) (3 / (1 + 3)) (3 / (1 + 3) * (1001 / 1000)) \<and>
   comm_comp_ratios (+) (\<lambda>x y. x / y * (1001 / 1000)) (*) 1 3 = (25025 / 1000, 75075 / 1000) \<and>
   \<bar>fst (comm_comp_ratios (+) (\<lambda>x y. x / y * (1001 / 1000)) (*) 1 3) +
     snd (comm_comp_ratios (+) (\<lambda>x y. x / y * (1001 / 1000)) (*) 1 3) - 100\<bar>
     \<le> 100 * (3 * (1 / 1000) + (1 / 1000)\<^sup>2) / (1 - 1 / 1000)"
proof -
  have v: "comm_comp_ratios (+) (\<lambda>x y. x / y * (1001 / 1000)) (*) 1 3 =
      (25025 / 1000, 75075 / 1000)"
    by (simp add: comm_comp_ratios_def Let_def)
  have d1: "rounds_to (1 / 1000) (1 / (1 + 3)) (1 / (1 + 3) * (1001 / 1000))"
    by (simp add: rounds_to_def)
  have d2: "rounds_to (1 / 1000) (3 / (1 + 3)) (3 / (1 + 3) * (1001 / 1000))"
    by (simp add: rounds_to_def)
  have b: "\<bar>fst (comm_comp_ratios (+) (\<lambda>x y. x / y * (1001 / 1000)) (*) 1 3) +
     snd (comm_comp_ratios (+) (\<lambda>x y. x / y * (1001 / 1000)) (*) 1 3) - 100\<bar>
     \<le> 100 * (3 * (1 / 1000) + (1 / 1000)\<^sup>2) / (1 - 1 / 1000)"
    by (rule ratios_sum_to_100 [of "1 / 1000" 1 3 "(+)" "\<lambda>x y. x / y * (1001 / 1000)" "(*)"])
      (simp_all add: rounds_to_def)
  from v d1 d2 b show ?thesis
    by (simp add: rounds_to_def)
qed

text \<open>
  C10. In the strong-scaling analysis, when \<open>numProcs\<close> does not divide \<open>N\<close>, each of the
  \<open>numProcs\<close> participants generates \<open>\<lceil>N / numProcs\<rceil>\<close> elements, so the global sum
  combines \<open>\<lceil>N / numProcs\<rceil> * numProcs > N\<close> elements (the value at rank 0 is the
  combination of the sums of all these datasets), and yet the average rank 0 prints is
  that global sum divided by \<open>N\<close>.
\<close>

theorem strong_scaling_average_divides_by_N:
  assumes "1 \<le> N" and "1 \<le> numProcs" and "N mod int numProcs \<noteq> 0"
  shows "\<exists>res. strongScalingAnalysis mk draw fadd fdiv i2d zero p N numProcs = Inr res \<and>
       length (data_all res) = numProcs \<and>
       (\<forall>d \<in> set (data_all res). int (length d) = \<lceil>real_of_int N / real numProcs\<rceil>) \<and>
       int (sum_list (map length (data_all res))) = \<lceil>real_of_int N / real numProcs\<rceil> * int numProcs \<and>
       N < int (sum_list (map length (data_all res))) \<and>
       globalSum_all res ! 0 = combine fadd p (map (foldl fadd zero) (data_all res)) \<and>
       avg_root res = fdiv (globalSum_all res ! 0) (i2d N)"
proof -
  let ?c = "\<lceil>real_of_int N / real numProcs\<rceil>"
  have e: "elementsPerProc N (int numProcs) = Inr ?c"
    using assms elementsPerProc_ceiling [of N "int numProcs"] by simp
  have "0 < real_of_int N / real numProcs"
    using assms by simp
  then have pos: "0 \<le> ?c"
    by (simp add: less_imp_le)
  define data where "data = map (\<lambda>rank. draws draw (nat ?c) (mk (int rank + 42))) [0..<numProcs]"
  define res where "res = \<lparr>data_all = data, localSum_all = map (foldl fadd zero) data,
     globalSum_all = MPI_Reduce fadd p (map (foldl fadd zero) data) (replicate numProcs zero) 0,
     avg_root = fdiv (MPI_Reduce fadd p (map (foldl fadd zero) data) (replicate numProcs zero) 0 ! 0) (i2d N)\<rparr>"
  have run: "strongScalingAnalysis mk draw fadd fdiv i2d zero p N numProcs = Inr res"
    by (simp add: strongScalingAnalysis_Inr [OF e pos] Let_def res_def data_def)
  have len: "length data = numProcs" by (simp add: data_def)
  have each: "\<forall>d \<in> set data. length d = nat ?c" by (auto simp: data_def)
  have total: "sum_list (map length data) = numProcs * nat ?c"
    using sum_list_length_const [OF each] len by simp
  have total': "int (sum_list (map length data)) = ?c * int numProcs"
    using pos by (simp add: total)
  have gt: "N < ?c * int numProcs"
    using ceiling_times_gt [of "int numProcs" N] assms by simp
  have root: "MPI_Reduce fadd p (map (foldl fadd zero) data) (replicate numProcs zero) 0 ! 0
      = combine fadd p (map (foldl fadd zero) data)"
    using assms(2) by (simp add: MPI_Reduce_root)
  have "length (data_all res) = numProcs" by (simp add: res_def len)
  moreover have "\<forall>d \<in> set (data_all res). int (length d) = ?c"
    using each pos by (simp add: res_def)
  moreover have "int (sum_list (map length (data_all res))) = ?c * int numProcs"
    using total' by (simp add: res_def)
  moreover have "N < int (sum_list (map length (data_all res)))"
    using total' gt by (simp add: res_def)
  moreover have "globalSum_all res ! 0 = combine fadd p (map (foldl fadd zero) (data_all res))"
    using root by (simp add: res_def)
  moreover have "avg_root res = fdiv (globalSum_all res ! 0) (i2d N)"
    by (simp add: res_def)
  ultimately show ?thesis using run by blast
qed

theorem strong_scaling_average_divides_by_N_witness:
  "(1::int) \<le> 10 \<and> (1::nat) \<le> 3 \<and> (10::int) mod int 3 \<noteq> 0 \<and>
   (\<exists>res. strongScalingAnalysis (\<lambda>seed. nat seed) (\<lambda>g. (g, Suc g)) (+) (div) nat 0
             (seq_plan 2) 10 3 = Inr res \<and>
      length (data_all res) = 3 \<and>
      int (sum_list (map length (data_all res))) = 12 \<and>
      avg_root res = globalSum_all res ! 0 div 10)"
  using strong_scaling_average_divides_by_N
    [of 10 3 "\<lambda>seed. nat seed" "\<lambda>g. (g, Suc g)" "(+)" "(div)" nat 0 "seq_plan 2"]
  by auto

end
